theory Spec2Isabelle
  imports Main
begin

section \<open>Values and errors\<close>

text \<open>
  A decoded JSON document, as Python's decoder returns it: \<open>None\<close>, a bool, a number,
  a string, a list, or a dict. A dict keeps its keys in insertion order, so it is an
  association list. No operation of the client looks inside a number, so integers
  stand for all of them.
\<close>

datatype json =
    JNull
  | JBool bool
  | JNum int
  | JStr string
  | JArr "json list"
  | JObj "(string \<times> json) list"

type_synonym payload = "(string \<times> json) list"

text \<open>The exceptions that the modelled code can raise.\<close>

datatype error =
    ConnectionError
  | HTTPError int
  | JSONDecodeError
  | KeyError string
  | TypeError
  | ValueError
  | RecursionError

section \<open>The result wrapper (class \<open>Result\<close> of dimensions.py)\<close>

text \<open>
  The wrapper holds the decoded body as \<open>self.data\<close>. The API answers with a JSON
  object, so the payload is a dict.
\<close>

datatype Result = Result (data: payload)

text \<open>\<open>d[k]\<close> on a dict: the value, or KeyError.\<close>

definition dict_get :: "payload \<Rightarrow> string \<Rightarrow> error + json" where
  "dict_get d k = (case map_of d k of None \<Rightarrow> Inl (KeyError k) | Some v \<Rightarrow> Inr v)"

text \<open>\<open>len(v)\<close>: defined on strings, lists and dicts; TypeError on the rest.\<close>

fun len :: "json \<Rightarrow> error + nat" where
  "len (JStr s) = Inr (length s)"
| "len (JArr xs) = Inr (length xs)"
| "len (JObj kvs) = Inr (length kvs)"
| "len JNull = Inl TypeError"
| "len (JBool b) = Inl TypeError"
| "len (JNum n) = Inl TypeError"

text \<open>
  \<open>__getitem__\<close>: the value when \<open>key in self.data\<close>, else Python's \<open>False\<close>.
\<close>

definition getitem :: "Result \<Rightarrow> string \<Rightarrow> error + json" where
  "getitem r key =
     (if key \<in> set (map fst (data r)) then dict_get (data r) key
      else Inr (JBool False))"

text \<open>\<open>__getattr__\<close>: renames \<open>stats\<close> to \<open>_stats\<close>, then \<open>__getitem__\<close>.\<close>

definition getattr :: "Result \<Rightarrow> string \<Rightarrow> error + json" where
  "getattr r name = getitem r (if name = ''stats'' then ''_stats'' else name)"

text \<open>
  Attribute access \<open>r.name\<close>. Python calls \<open>__getattr__\<close> only when the ordinary
  lookup finds nothing: \<open>data\<close> (the payload, as the class docstring says), the names
  defined in the class body, and the names the display base class provides (a
  parameter, since that class belongs to IPython) are found first.
\<close>

datatype attr_value =
    Data_attr payload
  | Method_attr string
  | Inherited_attr string
  | Item json

definition class_attrs :: "string list" where
  "class_attrs = [''__init__'', ''__getitem__'', ''__getattr__'', ''keys'', ''keys_and_count'']"

definition getattribute :: "string list \<Rightarrow> Result \<Rightarrow> string \<Rightarrow> error + attr_value" where
  "getattribute inherited r name =
     (if name = ''data'' then Inr (Data_attr (data r))
      else if name \<in> set class_attrs then Inr (Method_attr name)
      else if name \<in> set inherited then Inr (Inherited_attr name)
      else map_sum id Item (getattr r name))"

text \<open>\<open>keys\<close>: the dict's keys, in order.\<close>

definition keys :: "Result \<Rightarrow> string list" where
  "keys r = map fst (data r)"

text \<open>
  \<open>keys_and_count\<close>: the list comprehension evaluates \<open>len(self.data[x])\<close> for each
  key in order and stops at the first exception.
\<close>

fun comprehension :: "('a \<Rightarrow> error + 'b) \<Rightarrow> 'a list \<Rightarrow> error + 'b list" where
  "comprehension f [] = Inr []"
| "comprehension f (x # xs) =
     (case f x of
        Inl e \<Rightarrow> Inl e
      | Inr y \<Rightarrow> (case comprehension f xs of Inl e \<Rightarrow> Inl e | Inr ys \<Rightarrow> Inr (y # ys)))"

definition keys_and_count :: "Result \<Rightarrow> error + (string \<times> nat) list" where
  "keys_and_count r =
     comprehension
       (\<lambda>x. case dict_get (data r) x of
               Inl e \<Rightarrow> Inl e
             | Inr v \<Rightarrow> (case len v of Inl e \<Rightarrow> Inl e | Inr n \<Rightarrow> Inr (x, n)))
       (map fst (data r))"

section \<open>The chunking utility\<close>

text \<open>
  \<open>chunks_of\<close> takes \<open>size\<close> items at a time from an iterator over the data and
  yields each non-empty chunk. \<open>islice\<close> accepts a size from 0 to \<open>sys.maxsize\<close> and
  refuses any other with ValueError. \<open>sys.maxsize\<close> is a constant of the interpreter
  (\<open>2^63 - 1\<close> on a 64-bit build), so it is a parameter here.
\<close>

function chunks :: "'a list \<Rightarrow> nat \<Rightarrow> 'a list list" where
  "chunks it sz =
     (let chunk = take sz it
      in if chunk \<noteq> [] then chunk # chunks (drop sz it) sz else [])"
  by pat_completeness auto
termination
  by (relation "measure (\<lambda>(it, sz). length it)") auto

declare chunks.simps [simp del]

definition chunks_of :: "int \<Rightarrow> 'a list \<Rightarrow> int \<Rightarrow> error + 'a list list" where
  "chunks_of maxsize dat sz =
     (if sz < 0 \<or> maxsize < sz then Inl ValueError else Inr (chunks dat (nat sz)))"

section \<open>The HTTP client and the session (class \<open>Dsl\<close> of dimensions.py)\<close>

text \<open>
  What \<open>requests.post\<close> sends: the URL, the body (\<open>data=\<close> a raw string, \<open>json=\<close> a
  dict) and the headers.
\<close>

datatype body = Data string | Json payload

datatype request = Post string body "(string \<times> string) list"

text \<open>
  What it gets back: the status code and the body as \<open>response.json()\<close> decodes it;
  \<open>None\<close> when the body is not a JSON document, where \<open>response.json()\<close> raises.
\<close>

record response =
  status_code :: int
  json_body :: "payload option"

text \<open>
  \<open>response.raise_for_status()\<close> raises HTTPError for a 4xx or 5xx status and does
  nothing otherwise.
\<close>

definition raise_for_status :: "response \<Rightarrow> error option" where
  "raise_for_status response =
     (if 400 \<le> status_code response \<and> status_code response < 600
      then Some (HTTPError (status_code response)) else None)"

text \<open>
  The effects of the client, in the order they happen, and the state they act on:
  the fields of the \<open>Dsl\<close> object, the server (any deterministic machine, given by
  its step function; a request that gets no response raises in \<open>requests.post\<close>) and
  the log of the effects so far.
\<close>

datatype event = Http request | Print string | Sleep nat

record 'srv state =
  url :: string
  username :: string
  password :: string
  headers :: "(string \<times> string) list"
  server :: 'srv
  log :: "event list"

type_synonym 'srv step = "'srv \<Rightarrow> request \<Rightarrow> (error + response) \<times> 'srv"

definition post :: "'srv step \<Rightarrow> 'srv state \<Rightarrow> request \<Rightarrow> (error + response) \<times> 'srv state" where
  "post srv st rq =
     (case srv (server st) rq of
        (r, s') \<Rightarrow> (r, st\<lparr>server := s', log := log st @ [Http rq]\<rparr>))"

definition emit :: "event list \<Rightarrow> 'srv state \<Rightarrow> 'srv state" where
  "emit es st = st\<lparr>log := log st @ es\<rparr>"

text \<open>
  \<open>_login\<close>: posts the credentials, raises on an error status, reads the token of
  the body and replaces the headers.
\<close>

definition login_request :: "'srv state \<Rightarrow> request" where
  "login_request st =
     Post (url st @ ''/api/auth.json'')
       (Json [(''username'', JStr (username st)), (''password'', JStr (password st))]) []"

definition login :: "'srv step \<Rightarrow> 'srv state \<Rightarrow> (error + unit) \<times> 'srv state" where
  "login srv st =
     (case post srv st (login_request st) of
        (Inl e, st1) \<Rightarrow> (Inl e, st1)
      | (Inr response, st1) \<Rightarrow>
          (case raise_for_status response of
             Some e \<Rightarrow> (Inl e, st1)
           | None \<Rightarrow>
               (case json_body response of
                  None \<Rightarrow> (Inl JSONDecodeError, st1)
                | Some d \<Rightarrow>
                    (case dict_get d ''token'' of
                       Inl e \<Rightarrow> (Inl e, st1)
                     | Inr (JStr token) \<Rightarrow>
                         (Inr (), st1\<lparr>headers := [(''Authorization'', ''JWT '' @ token)]\<rparr>)
                     | Inr _ \<Rightarrow> (Inl TypeError, st1)))))"

text \<open>
  \<open>query\<close>: what a call ends with is an exception, a \<open>Result\<close>, or \<open>None\<close> when the
  body falls off its end. The three retries are calls of \<open>query\<close> from inside
  \<open>query\<close> (\<open>return self.query(...)\<close>), and the interpreter keeps the frame of the
  caller: a call nested deeper than the recursion limit allows
  (\<open>sys.getrecursionlimit()\<close>, 1000 unless changed) raises RecursionError. \<open>depth\<close> is
  the number of further levels of nested calls that the stack admits when the call
  starts, each level with the request it makes. A call of \<open>_login\<close> nests as deep as
  a call of \<open>query\<close>, so both are refused at the same depth. The call that does not
  fit raises before its request is sent, after the message and the sleep that come
  before it.
\<close>

datatype outcome = Raised error | Returned Result | Returned_None

definition query_request :: "'srv state \<Rightarrow> string \<Rightarrow> request" where
  "query_request st q = Post (url st @ ''/api/dsl.json'') (Data q) (headers st)"

definition msg_429 :: string where
  "msg_429 = ''Too Many Requests for the Server. Sleeping for 30 seconds and then retrying.''"

definition msg_403 :: string where
  "msg_403 = ''Login token expired. Logging in again.''"

definition msg_retry :: string where
  "msg_retry = ''Retrying in 30 secs''"

fun query :: "'srv step \<Rightarrow> nat \<Rightarrow> 'srv state \<Rightarrow> string \<Rightarrow> int \<Rightarrow> outcome \<times> 'srv state" where
  "query srv depth st q retry =
     (case post srv st (query_request st q) of
        (Inl e, st1) \<Rightarrow> (Raised e, st1)
      | (Inr response, st1) \<Rightarrow>
          if status_code response = 429 then
            (case depth of
               0 \<Rightarrow> (Raised RecursionError, emit [Print msg_429, Sleep 30] st1)
             | Suc d \<Rightarrow> query srv d (emit [Print msg_429, Sleep 30] st1) q 0)
          else if status_code response = 403 then
            (case depth of
               0 \<Rightarrow> (Raised RecursionError, emit [Print msg_403] st1)
             | Suc d \<Rightarrow>
                 (case login srv (emit [Print msg_403] st1) of
                    (Inl e, st2) \<Rightarrow> (Raised e, st2)
                  | (Inr u, st2) \<Rightarrow> query srv d st2 q 0))
          else if status_code response \<in> {200, 400, 500} then
            (case json_body response of
               None \<Rightarrow> (Raised JSONDecodeError, st1)
             | Some d \<Rightarrow> (Returned (Result d), st1))
          else if retry > 0 then
            (case depth of
               0 \<Rightarrow> (Raised RecursionError, emit [Print msg_retry, Sleep 30] st1)
             | Suc d \<Rightarrow> query srv d (emit [Print msg_retry, Sleep 30] st1) q (retry - 1))
          else
            (case raise_for_status response of
               Some e \<Rightarrow> (Raised e, st1)
             | None \<Rightarrow> (Returned_None, st1)))"

declare query.simps [simp del]

text \<open>
  A server for concrete runs: it answers from a script, whatever the request, and
  stops answering when the script ends.
\<close>

fun scripted :: "response list step" where
  "scripted [] rq = (Inl ConnectionError, [])"
| "scripted (r # rs) rq = (Inr r, rs)"

definition resp :: "int \<Rightarrow> payload option \<Rightarrow> response" where
  "resp c b = \<lparr>status_code = c, json_body = b\<rparr>"

definition session :: "'srv \<Rightarrow> 'srv state" where
  "session s =
     \<lparr>url = ''https://app.dimensions.ai'', username = ''u'', password = ''p'',
      headers = [(''Authorization'', ''JWT t0'')], server = s, log = []\<rparr>"

text \<open>
  The state of the server after it has answered \<open>n\<close> times in a row with status
  \<open>c\<close> to the request \<open>rq\<close>; \<open>None\<close> when one of these answers is something else.
\<close>

fun answers :: "int \<Rightarrow> 'srv step \<Rightarrow> request \<Rightarrow> 'srv \<Rightarrow> nat \<Rightarrow> 'srv option" where
  "answers c srv rq s 0 = Some s"
| "answers c srv rq s (Suc n) =
     (case srv s rq of
        (Inl e, s') \<Rightarrow> None
      | (Inr response, s') \<Rightarrow>
          if status_code response = c then answers c srv rq s' n else None)"

section \<open>What the specification says of \<open>keys_and_count\<close>\<close>

text \<open>
  The specification's wording: the pairs (key, item count) for the keys whose value
  is a sequence, in the payload's key order. Lists and strings are Python's
  sequences; a dict is a mapping.
\<close>

fun is_sequence :: "json \<Rightarrow> bool" where
  "is_sequence (JArr xs) = True"
| "is_sequence (JStr s) = True"
| "is_sequence v = False"

fun item_count :: "json \<Rightarrow> nat" where
  "item_count (JArr xs) = length xs"
| "item_count (JStr s) = length s"
| "item_count (JObj kvs) = length kvs"
| "item_count v = 0"

definition keys_and_count_spec :: "Result \<Rightarrow> error + (string \<times> nat) list" where
  "keys_and_count_spec r =
     Inr (map (\<lambda>(k, v). (k, item_count v)) (filter (\<lambda>(k, v). is_sequence v) (data r)))"

text \<open>The values that have a length: strings, lists and dicts.\<close>

fun sized :: "json \<Rightarrow> bool" where
  "sized (JArr xs) = True"
| "sized (JStr s) = True"
| "sized (JObj kvs) = True"
| "sized v = False"

section \<open>The loop executor\<close>

text \<open>
  Modelled from the spec: \<open>query_iterative\<close>, which the notebook commands call on the
  \<open>Dsl\<close> object and whose module (core/api) is not among the sources. Following
  section 4.3: each page request uses a fixed page size; the offset starts at 0 and
  grows by the page size after each successful page; the loop stops at a page with
  fewer records than the page size or when a declared total has been reached; the
  pages are concatenated in request order; a failing page aborts the loop and the
  pages so far are dropped. The page request itself (the query executor run on the
  query with the limit and skip clauses added) is the parameter \<open>fetch\<close>, from the
  offset to the page's records or the executor's error. The result comes with the
  offsets requested, in order. A server that never sends a short page keeps the loop
  running: \<open>None\<close> is a loop that never ends.
\<close>

partial_function (option) loop_pages ::
  "(nat \<Rightarrow> error + 'a list) \<Rightarrow> nat \<Rightarrow> nat option \<Rightarrow> nat \<Rightarrow> 'a list \<Rightarrow> nat list
     \<Rightarrow> ((error + 'a list) \<times> nat list) option" where
  "loop_pages fetch limit declared offset accumulated offsets =
     (case fetch offset of
        Inl e \<Rightarrow> Some (Inl e, offsets @ [offset])
      | Inr page \<Rightarrow>
          if length page < limit
             \<or> (case declared of None \<Rightarrow> False | Some t \<Rightarrow> t \<le> length (accumulated @ page))
          then Some (Inr (accumulated @ page), offsets @ [offset])
          else loop_pages fetch limit declared (offset + limit) (accumulated @ page)
                 (offsets @ [offset]))"

declare loop_pages.simps [code]

definition query_iterative ::
  "(nat \<Rightarrow> error + 'a list) \<Rightarrow> nat \<Rightarrow> nat option \<Rightarrow> ((error + 'a list) \<times> nat list) option" where
  "query_iterative fetch limit declared = loop_pages fetch limit declared 0 [] []"

section \<open>Properties of the result wrapper\<close>

lemma dict_get_present:
  "distinct (map fst d) \<Longrightarrow> (k, v) \<in> set d \<Longrightarrow> dict_get d k = Inr v"
  by (simp add: dict_get_def)

lemma len_sized: "sized v \<Longrightarrow> len v = Inr (item_count v)"
  by (cases v) simp_all

lemma comprehension_total:
  "(\<And>x. x \<in> set xs \<Longrightarrow> f x = Inr (g x)) \<Longrightarrow> comprehension f xs = Inr (map g xs)"
  by (induction xs) simp_all

lemma comprehension_map:
  "comprehension f (map h ps) = comprehension (\<lambda>p. f (h p)) ps"
  by (induction ps) (simp_all split: sum.splits)

text \<open>
  Claim C7. Key-style access returns the payload's value for a key that is present and
  the sentinel \<open>False\<close> for a key that is absent, and never raises. The payload is a
  dict, so its keys are distinct. The lookup is a function of the wrapper that
  assigns nothing, so the payload it reads is the payload afterwards.
\<close>

theorem getitem_present_or_sentinel:
  "(distinct (map fst (data r)) \<and> (key, v) \<in> set (data r) \<longrightarrow> getitem r key = Inr v) \<and>
   (key \<notin> fst ` set (data r) \<longrightarrow> getitem r key = Inr (JBool False)) \<and>
   (distinct (map fst (data r)) \<longrightarrow> (\<forall>e. getitem r key \<noteq> Inl e))"
proof (intro conjI impI allI)
  assume h: "distinct (map fst (data r)) \<and> (key, v) \<in> set (data r)"
  then have "key \<in> fst ` set (data r)" by force
  with h show "getitem r key = Inr v"
    by (simp add: getitem_def dict_get_present)
next
  assume "key \<notin> fst ` set (data r)"
  then show "getitem r key = Inr (JBool False)" by (simp add: getitem_def)
next
  fix e
  assume d: "distinct (map fst (data r))"
  show "getitem r key \<noteq> Inl e"
  proof (cases "key \<in> fst ` set (data r)")
    case True
    then obtain w where "(key, w) \<in> set (data r)" by auto
    with d True show ?thesis by (simp add: getitem_def dict_get_present)
  next
    case False
    then show ?thesis by (simp add: getitem_def)
  qed
qed

theorem getitem_present_or_sentinel_witness:
  "getitem (Result [(''publications'', JArr [JNum 1]), (''_stats'', JObj [(''total_count'', JNum 5)])])
     ''publications'' = Inr (JArr [JNum 1]) \<and>
   getitem (Result [(''publications'', JArr [JNum 1]), (''_stats'', JObj [(''total_count'', JNum 5)])])
     ''missing_key'' = Inr (JBool False)"
  using getitem_present_or_sentinel
    [of "Result [(''publications'', JArr [JNum 1]), (''_stats'', JObj [(''total_count'', JNum 5)])]"
        "''publications''" "JArr [JNum 1]"]
    getitem_present_or_sentinel
    [of "Result [(''publications'', JArr [JNum 1]), (''_stats'', JObj [(''total_count'', JNum 5)])]"
        "''missing_key''" "JNull"]
  by simp

text \<open>
  Claim C6, as stated, fails: \<open>keys_and_count\<close> does not select the keys whose value
  is a sequence. On the payload of a search, the \<open>_stats\<close> dict is counted too.
\<close>

theorem keys_and_count_counts_dicts:
  "keys_and_count (Result [(''publications'', JArr [JNum 1, JNum 2]), (''_stats'', JObj [(''total_count'', JNum 5)])])
   \<noteq> keys_and_count_spec (Result [(''publications'', JArr [JNum 1, JNum 2]), (''_stats'', JObj [(''total_count'', JNum 5)])])"
  by (simp add: keys_and_count_def keys_and_count_spec_def dict_get_def)

text \<open>
  Claim C6, amended. On a payload all of whose top-level values have a length (lists,
  strings and dicts), \<open>keys_and_count\<close> returns the pair (key, length of the value)
  for every top-level key, in the payload's key order; on a payload with two
  list-valued keys it returns \<open>[(key1, len1), (key2, len2)]\<close>.
\<close>

theorem keys_and_count_sized:
  "(distinct (map fst (data r)) \<and> (\<forall>v \<in> snd ` set (data r). sized v)
      \<longrightarrow> keys_and_count r = Inr (map (\<lambda>(k, v). (k, item_count v)) (data r))) \<and>
   (k1 \<noteq> k2 \<longrightarrow>
      keys_and_count (Result [(k1, JArr xs), (k2, JArr ys)]) = Inr [(k1, length xs), (k2, length ys)])"
proof (intro conjI impI)
  assume h: "distinct (map fst (data r)) \<and> (\<forall>v \<in> snd ` set (data r). sized v)"
  let ?f = "\<lambda>x. case dict_get (data r) x of
               Inl e \<Rightarrow> Inl e
             | Inr v \<Rightarrow> (case len v of Inl e \<Rightarrow> Inl e | Inr n \<Rightarrow> Inr (x, n))"
  have step: "?f (fst p) = Inr (fst p, item_count (snd p))" if "p \<in> set (data r)" for p
  proof -
    from that have "(fst p, snd p) \<in> set (data r)" by simp
    with h have "dict_get (data r) (fst p) = Inr (snd p)" by (simp add: dict_get_present)
    moreover from that h have "sized (snd p)" by auto
    ultimately show ?thesis by (simp add: len_sized)
  qed
  have "comprehension (\<lambda>p. ?f (fst p)) (data r) = Inr (map (\<lambda>p. (fst p, item_count (snd p))) (data r))"
    by (rule comprehension_total) (rule step)
  then show "keys_and_count r = Inr (map (\<lambda>(k, v). (k, item_count v)) (data r))"
    by (simp add: keys_and_count_def comprehension_map case_prod_unfold)
next
  assume "k1 \<noteq> k2"
  then show "keys_and_count (Result [(k1, JArr xs), (k2, JArr ys)]) = Inr [(k1, length xs), (k2, length ys)]"
    by (simp add: keys_and_count_def dict_get_def)
qed

theorem keys_and_count_sized_witness:
  "keys_and_count (Result [(''publications'', JArr [JNum 1, JNum 2]), (''_stats'', JObj [(''total_count'', JNum 5)])])
     = Inr [(''publications'', 2), (''_stats'', 1)] \<and>
   keys_and_count (Result [(''a'', JArr [JNull]), (''b'', JArr [])]) = Inr [(''a'', 1), (''b'', 0)]"
  using keys_and_count_sized
    [of "Result [(''publications'', JArr [JNum 1, JNum 2]), (''_stats'', JObj [(''total_count'', JNum 5)])]"
        "''a''" "''b''" "[JNull]" "[]"]
  by simp

text \<open>
  Claim C8, as stated, fails: attribute access is not key access for every name. The
  name \<open>data\<close> is found by the ordinary lookup and gives the whole payload, also when
  the payload has a key \<open>data\<close>.
\<close>

theorem getattribute_data_is_payload:
  "getattribute [] (Result [(''data'', JArr [])]) ''data''
   \<noteq> map_sum id Item (getitem (Result [(''data'', JArr [])]) ''data'')"
  by (simp add: getattribute_def getitem_def dict_get_def)

text \<open>
  Claim C8, amended. For every name that the ordinary lookup does not find (not
  \<open>data\<close>, not defined in the class body, not provided by the display base class),
  attribute access is key access on that name, with \<open>stats\<close> redirected to \<open>_stats\<close>.
\<close>

theorem getattribute_fallback:
  "name \<noteq> ''data'' \<and> name \<notin> set class_attrs \<and> name \<notin> set inherited \<longrightarrow>
     getattribute inherited r name =
       map_sum id Item (getitem r (if name = ''stats'' then ''_stats'' else name))"
  by (simp add: getattribute_def getattr_def)

theorem getattribute_fallback_witness:
  "getattribute [''url'', ''filename'', ''metadata'']
     (Result [(''publications'', JArr [JNum 1]), (''_stats'', JObj [(''total_count'', JNum 5)])]) ''stats''
     = Inr (Item (JObj [(''total_count'', JNum 5)])) \<and>
   getattribute [''url'', ''filename'', ''metadata'']
     (Result [(''publications'', JArr [JNum 1]), (''_stats'', JObj [(''total_count'', JNum 5)])]) ''publications''
     = Inr (Item (JArr [JNum 1]))"
  using getattribute_fallback
    [of "''stats''" "[''url'', ''filename'', ''metadata'']"
        "Result [(''publications'', JArr [JNum 1]), (''_stats'', JObj [(''total_count'', JNum 5)])]"]
   getattribute_fallback
    [of "''publications''" "[''url'', ''filename'', ''metadata'']"
        "Result [(''publications'', JArr [JNum 1]), (''_stats'', JObj [(''total_count'', JNum 5)])]"]
  by (simp add: class_attrs_def getitem_def dict_get_def)

section \<open>Properties of the chunking utility\<close>

lemma chunks_concat: "0 < n \<Longrightarrow> concat (chunks xs n) = xs"
proof (induction xs n rule: chunks.induct)
  case (1 it sz)
  show ?case
  proof (cases "take sz it = []")
    case True
    with "1.prems" have "it = []" by (cases it) auto
    with True show ?thesis by (subst chunks.simps) simp
  next
    case False
    with 1 have "concat (chunks (drop sz it) sz) = drop sz it" by simp
    with False show ?thesis by (subst chunks.simps) simp
  qed
qed

lemma chunks_nonempty: "[] \<notin> set (chunks xs n)"
proof (induction xs n rule: chunks.induct)
  case (1 it sz)
  show ?case
  proof (cases "take sz it = []")
    case True
    then show ?thesis by (subst chunks.simps) simp
  next
    case False
    with 1 have "[] \<notin> set (chunks (drop sz it) sz)" by simp
    with False show ?thesis by (subst chunks.simps) auto
  qed
qed

lemma chunks_Nil: "chunks xs n = [] \<longleftrightarrow> take n xs = []"
  by (subst chunks.simps) (simp add: Let_def)

lemma chunks_full: "c \<in> set (butlast (chunks xs n)) \<Longrightarrow> length c = n"
proof (induction xs n arbitrary: c rule: chunks.induct)
  case (1 it sz)
  show ?case
  proof (cases "take sz it = []")
    case True
    then have "chunks it sz = []" by (simp add: chunks_Nil)
    with "1.prems" show ?thesis by simp
  next
    case False
    then have eq: "chunks it sz = take sz it # chunks (drop sz it) sz"
      by (subst chunks.simps) simp
    show ?thesis
    proof (cases "chunks (drop sz it) sz = []")
      case True
      with eq "1.prems" show ?thesis by simp
    next
      case nonempty: False
      then have "take sz (drop sz it) \<noteq> []" by (simp add: chunks_Nil)
      then have "sz < length it" by (cases "sz < length it") auto
      then have full: "length (take sz it) = sz" by simp
      from eq nonempty "1.prems"
      have "c = take sz it \<or> c \<in> set (butlast (chunks (drop sz it) sz))" by simp
      then show ?thesis
      proof
        assume "c = take sz it"
        with full show ?thesis by simp
      next
        assume "c \<in> set (butlast (chunks (drop sz it) sz))"
        with False show ?thesis by (rule "1.IH" [OF refl])
      qed
    qed
  qed
qed

lemma chunks_bounded: "c \<in> set (chunks xs n) \<Longrightarrow> length c \<le> n"
proof (induction xs n arbitrary: c rule: chunks.induct)
  case (1 it sz)
  show ?case
  proof (cases "take sz it = []")
    case True
    then have "chunks it sz = []" by (simp add: chunks_Nil)
    with "1.prems" show ?thesis by simp
  next
    case False
    then have "chunks it sz = take sz it # chunks (drop sz it) sz"
      by (subst chunks.simps) simp
    with "1.prems" have "c = take sz it \<or> c \<in> set (chunks (drop sz it) sz)" by simp
    then show ?thesis
    proof
      assume "c = take sz it"
      then show ?thesis by simp
    next
      assume "c \<in> set (chunks (drop sz it) sz)"
      with False show ?thesis by (rule "1.IH" [OF refl])
    qed
  qed
qed

text \<open>
  Claim C9, as stated, fails: not every size greater than zero gives chunks. A size
  above \<open>sys.maxsize\<close> is refused by \<open>islice\<close>, here \<open>2^63\<close> on a 64-bit build.
\<close>

theorem chunks_of_refuses_large_size:
  "(0::int) < 2 ^ 63 \<and> chunks_of (2 ^ 63 - 1) [1, 2, 3 :: int] (2 ^ 63) = Inl ValueError"
  by (simp add: chunks_of_def)

text \<open>
  Claim C9, amended. For every list and every chunk size from 1 to \<open>sys.maxsize\<close>,
  \<open>chunks_of\<close> yields chunks whose concatenation in order is the list, every chunk
  but possibly the last has exactly the given size, and no chunk is empty or longer
  than the size.
\<close>

theorem chunks_of_partition:
  "0 < sz \<and> sz \<le> maxsize \<longrightarrow>
   (\<exists>cs. chunks_of maxsize xs sz = Inr cs \<and> concat cs = xs
      \<and> (\<forall>c \<in> set (butlast cs). int (length c) = sz)
      \<and> (\<forall>c \<in> set cs. c \<noteq> [] \<and> int (length c) \<le> sz))"
proof
  assume h: "0 < sz \<and> sz \<le> maxsize"
  then have n: "0 < nat sz" by simp
  have "chunks_of maxsize xs sz = Inr (chunks xs (nat sz))"
    using h by (simp add: chunks_of_def)
  moreover have "concat (chunks xs (nat sz)) = xs"
    using n by (rule chunks_concat)
  moreover have "\<forall>c \<in> set (butlast (chunks xs (nat sz))). int (length c) = sz"
    using h by (auto dest: chunks_full)
  moreover have "\<forall>c \<in> set (chunks xs (nat sz)). c \<noteq> [] \<and> int (length c) \<le> sz"
  proof
    fix c
    assume c: "c \<in> set (chunks xs (nat sz))"
    have "[] \<notin> set (chunks xs (nat sz))"
      by (rule chunks_nonempty)
    with c have "c \<noteq> []" by auto
    moreover have "length c \<le> nat sz"
      using c by (rule chunks_bounded)
    ultimately show "c \<noteq> [] \<and> int (length c) \<le> sz"
      using h by (simp add: le_nat_iff)
  qed
  ultimately show "\<exists>cs. chunks_of maxsize xs sz = Inr cs \<and> concat cs = xs
      \<and> (\<forall>c \<in> set (butlast cs). int (length c) = sz)
      \<and> (\<forall>c \<in> set cs. c \<noteq> [] \<and> int (length c) \<le> sz)"
    by blast
qed

lemma chunks_5_2:
  "chunks_of (2 ^ 63 - 1) [1, 2, 3, 4, 5 :: int] 2 = Inr [[1, 2], [3, 4], [5]]"
  by (simp add: chunks_of_def chunks.simps)

theorem chunks_of_partition_witness:
  "(0::int) < 2 \<and> (2::int) \<le> 2 ^ 63 - 1
   \<and> chunks_of (2 ^ 63 - 1) [1, 2, 3, 4, 5 :: int] 2 = Inr [[1, 2], [3, 4], [5]] \<and>
   (\<exists>cs. chunks_of (2 ^ 63 - 1) [1, 2, 3, 4, 5 :: int] 2 = Inr cs \<and> concat cs = [1, 2, 3, 4, 5]
      \<and> (\<forall>c \<in> set (butlast cs). int (length c) = 2)
      \<and> (\<forall>c \<in> set cs. c \<noteq> [] \<and> int (length c) \<le> 2))"
  using chunks_of_partition [of 2 "2 ^ 63 - 1" "[1, 2, 3, 4, 5 :: int]"] chunks_5_2 by simp

section \<open>Properties of the query executor\<close>

text \<open>One step of \<open>query\<close> for each class of answer, with the effects it logs.\<close>

lemma post_eq:
  "srv (server st) rq = (r, s') \<Longrightarrow>
   post srv st rq = (r, st\<lparr>server := s', log := log st @ [Http rq]\<rparr>)"
  by (simp add: post_def)

lemma query_request_upd [simp]:
  "query_request (st\<lparr>server := s, log := l\<rparr>) q = query_request st q"
  by (simp add: query_request_def)

lemma login_request_upd [simp]:
  "login_request (st\<lparr>server := s, log := l\<rparr>) = login_request st"
  by (simp add: login_request_def)

lemma query_429:
  assumes "srv (server st) (query_request st q) = (Inr response, s')"
    and "status_code response = 429"
  shows "query srv depth st q retry =
    (case depth of
       0 \<Rightarrow> (Raised RecursionError,
              st\<lparr>server := s', log := log st @ [Http (query_request st q), Print msg_429, Sleep 30]\<rparr>)
     | Suc d \<Rightarrow>
         query srv d
           (st\<lparr>server := s', log := log st @ [Http (query_request st q), Print msg_429, Sleep 30]\<rparr>)
           q 0)"
  using assms by (subst query.simps) (simp add: post_eq emit_def split: nat.splits)

lemma query_403:
  assumes "srv (server st) (query_request st q) = (Inr response, s')"
    and "status_code response = 403"
  shows "query srv depth st q retry =
    (case depth of
       0 \<Rightarrow> (Raised RecursionError,
              st\<lparr>server := s', log := log st @ [Http (query_request st q), Print msg_403]\<rparr>)
     | Suc d \<Rightarrow>
         (case login srv
                 (st\<lparr>server := s', log := log st @ [Http (query_request st q), Print msg_403]\<rparr>) of
            (Inl e, st2) \<Rightarrow> (Raised e, st2)
          | (Inr u, st2) \<Rightarrow> query srv d st2 q 0))"
  using assms by (subst query.simps) (simp add: post_eq emit_def split: nat.splits)

lemma query_done:
  assumes "srv (server st) (query_request st q) = (Inr response, s')"
    and "status_code response \<in> {200, 400, 500}"
    and "json_body response = Some d"
  shows "query srv depth st q retry =
    (Returned (Result d), st\<lparr>server := s', log := log st @ [Http (query_request st q)]\<rparr>)"
  using assms by (subst query.simps) (auto simp add: post_eq emit_def)

lemma query_other_retry:
  assumes "srv (server st) (query_request st q) = (Inr response, s')"
    and "status_code response \<notin> {429, 403, 200, 400, 500}"
    and "0 < retry"
  shows "query srv depth st q retry =
    (case depth of
       0 \<Rightarrow> (Raised RecursionError,
              st\<lparr>server := s', log := log st @ [Http (query_request st q), Print msg_retry, Sleep 30]\<rparr>)
     | Suc d \<Rightarrow>
         query srv d
           (st\<lparr>server := s', log := log st @ [Http (query_request st q), Print msg_retry, Sleep 30]\<rparr>)
           q (retry - 1))"
  using assms by (subst query.simps) (simp add: post_eq emit_def split: nat.splits)

lemma query_other_final:
  assumes "srv (server st) (query_request st q) = (Inr response, s')"
    and "status_code response \<notin> {429, 403, 200, 400, 500}"
    and "retry \<le> 0"
  shows "query srv depth st q retry =
    (case raise_for_status response of Some e \<Rightarrow> Raised e | None \<Rightarrow> Returned_None,
     st\<lparr>server := s', log := log st @ [Http (query_request st q)]\<rparr>)"
  using assms by (subst query.simps) (simp add: post_eq emit_def split: option.splits)

lemma login_log:
  "log (snd (login srv st)) = log st @ [Http (login_request st)]"
  by (cases "srv (server st) (login_request st)")
     (simp add: login_def post_def split: sum.splits option.splits json.splits)

lemma login_ok:
  assumes "srv (server st) (login_request st) = (Inr response, s')"
    and "raise_for_status response = None"
    and "json_body response = Some d"
    and "map_of d ''token'' = Some (JStr token)"
  shows "login srv st =
    (Inr (), st\<lparr>server := s', log := log st @ [Http (login_request st)],
                headers := [(''Authorization'', ''JWT '' @ token)]\<rparr>)"
  using assms by (simp add: login_def post_eq dict_get_def)

text \<open>The re-login after a 403, when the login succeeds: the headers carry the new token.\<close>

lemma query_403_relogin:
  assumes "srv (server st) (query_request st q) = (Inr r1, s1)" and "status_code r1 = 403"
    and "srv s1 (login_request st) = (Inr r2, s2)" and "raise_for_status r2 = None"
    and "json_body r2 = Some d2" and "map_of d2 ''token'' = Some (JStr token)"
  shows "query srv (Suc depth) st q retry =
     query srv depth
       (st\<lparr>server := s2,
           log := log st @ [Http (query_request st q), Print msg_403, Http (login_request st)],
           headers := [(''Authorization'', ''JWT '' @ token)]\<rparr>) q 0"
proof -
  let ?st1 = "st\<lparr>server := s1, log := log st @ [Http (query_request st q), Print msg_403]\<rparr>"
  have "srv (server ?st1) (login_request ?st1) = (Inr r2, s2)"
    using assms(3) by simp
  then have "login srv ?st1 =
     (Inr (), ?st1\<lparr>server := s2, log := log ?st1 @ [Http (login_request ?st1)],
                   headers := [(''Authorization'', ''JWT '' @ token)]\<rparr>)"
    using assms(4-6) by (rule login_ok [of srv "?st1" r2 s2 d2 token])
  then show ?thesis
    using query_403 [of srv st q r1 s1 "Suc depth" retry] assms(1,2) by simp
qed

lemma query_request_headers:
  "query_request (st\<lparr>server := s, log := l, headers := h\<rparr>) q =
     Post (url st @ ''/api/dsl.json'') (Data q) h"
  by (simp add: query_request_def)

text \<open>
  Runs of \<open>n\<close> answers of the same kind, throttled or unexpected with budget left:
  while the stack admits the nested calls, and when it does not.
\<close>

lemma query_429_run:
  "query_request st q = rq \<Longrightarrow> answers 429 srv rq (server st) n = Some s' \<Longrightarrow>
   query srv (n + depth) st q retry =
     query srv depth
       (st\<lparr>server := s', log := log st @ concat (replicate n [Http rq, Print msg_429, Sleep 30])\<rparr>)
       q (if n = 0 then retry else 0)"
proof (induction n arbitrary: st retry)
  case 0
  then show ?case by (cases st) auto
next
  case (Suc n)
  from Suc.prems obtain response s1 where
    step: "srv (server st) (query_request st q) = (Inr response, s1)"
    and code: "status_code response = 429"
    and rest: "answers 429 srv rq s1 n = Some s'"
    by (auto split: prod.splits sum.splits if_splits)
  let ?st1 = "st\<lparr>server := s1, log := log st @ [Http rq, Print msg_429, Sleep 30]\<rparr>"
  have "query srv (Suc n + depth) st q retry = query srv (n + depth) ?st1 q 0"
    using query_429 [of srv st q response s1 "Suc n + depth" retry] step code Suc.prems(1) by simp
  also have "\<dots> = query srv depth
       (?st1\<lparr>server := s', log := log ?st1 @ concat (replicate n [Http rq, Print msg_429, Sleep 30])\<rparr>)
       q (if n = 0 then 0 else 0)"
    using Suc.prems(1) rest by (intro Suc.IH) simp_all
  finally show ?case by simp
qed

lemma query_429_exhaust:
  "query_request st q = rq \<Longrightarrow> answers 429 srv rq (server st) (Suc depth) = Some s' \<Longrightarrow>
   query srv depth st q retry =
     (Raised RecursionError,
      st\<lparr>server := s',
          log := log st @ concat (replicate (Suc depth) [Http rq, Print msg_429, Sleep 30])\<rparr>)"
proof (induction depth arbitrary: st retry)
  case 0
  from "0.prems" obtain response where
    step: "srv (server st) (query_request st q) = (Inr response, s')"
    and code: "status_code response = 429"
    by (auto split: prod.splits sum.splits if_splits)
  show ?case
    using query_429 [of srv st q response s' 0 retry] step code "0.prems"(1) by simp
next
  case (Suc depth)
  from Suc.prems obtain response s1 where
    step: "srv (server st) (query_request st q) = (Inr response, s1)"
    and code: "status_code response = 429"
    and rest: "answers 429 srv rq s1 (Suc depth) = Some s'"
    by (auto split: prod.splits sum.splits if_splits)
  let ?st1 = "st\<lparr>server := s1, log := log st @ [Http rq, Print msg_429, Sleep 30]\<rparr>"
  have "query srv (Suc depth) st q retry = query srv depth ?st1 q 0"
    using query_429 [of srv st q response s1 "Suc depth" retry] step code Suc.prems(1) by simp
  also have "\<dots> = (Raised RecursionError,
       ?st1\<lparr>server := s',
            log := log ?st1 @ concat (replicate (Suc depth) [Http rq, Print msg_429, Sleep 30])\<rparr>)"
    using Suc.prems(1) rest by (intro Suc.IH) simp_all
  finally show ?case by simp
qed

lemma query_other_run:
  "query_request st q = rq \<Longrightarrow> c \<notin> {429, 403, 200, 400, 500} \<Longrightarrow>
   answers c srv rq (server st) n = Some s' \<Longrightarrow> 0 \<le> k \<Longrightarrow>
   query srv (n + depth) st q (int n + k) =
     query srv depth
       (st\<lparr>server := s', log := log st @ concat (replicate n [Http rq, Print msg_retry, Sleep 30])\<rparr>)
       q k"
proof (induction n arbitrary: st)
  case 0
  then show ?case by (cases st) auto
next
  case (Suc n)
  from Suc.prems(3) obtain response s1 where
    step: "srv (server st) (query_request st q) = (Inr response, s1)"
    and code: "status_code response = c"
    and rest: "answers c srv rq s1 n = Some s'"
    using Suc.prems(1) by (auto split: prod.splits sum.splits if_splits)
  let ?st1 = "st\<lparr>server := s1, log := log st @ [Http rq, Print msg_retry, Sleep 30]\<rparr>"
  have other: "status_code response \<notin> {429, 403, 200, 400, 500}"
    using code Suc.prems(2) by simp
  have pos: "0 < int (Suc n) + k"
    using Suc.prems(4) by simp
  have "query srv (Suc n + depth) st q (int (Suc n) + k) =
      query srv (n + depth) ?st1 q (int (Suc n) + k - 1)"
    using query_other_retry [of srv st q response s1 "int (Suc n) + k" "Suc n + depth"]
      step other pos Suc.prems(1)
    by simp
  also have "int (Suc n) + k - 1 = int n + k"
    by simp
  also have "query srv (n + depth) ?st1 q (int n + k) = query srv depth
       (?st1\<lparr>server := s', log := log ?st1 @ concat (replicate n [Http rq, Print msg_retry, Sleep 30])\<rparr>)
       q k"
    using Suc.prems(1,2,4) rest by (intro Suc.IH) simp_all
  finally show ?case by simp
qed

text \<open>The scripted server after a run of \<open>n\<close> answers with the same status.\<close>

lemma answers_scripted:
  "answers c scripted rq (replicate n (resp c b) @ rest) n = Some rest"
  by (induction n) (simp_all add: resp_def)

lemma query_403_exhaust:
  assumes "query_request st q = rq" and "answers 429 srv rq (server st) n = Some s0"
    and "srv s0 rq = (Inr r1, s1)" and "status_code r1 = 403"
  shows "query srv n st q retry =
     (Raised RecursionError,
      st\<lparr>server := s1,
          log := log st @ concat (replicate n [Http rq, Print msg_429, Sleep 30])
                   @ [Http rq, Print msg_403]\<rparr>)"
proof -
  let ?st = "st\<lparr>server := s0,
      log := log st @ concat (replicate n [Http rq, Print msg_429, Sleep 30])\<rparr>"
  have "query srv (n + 0) st q retry = query srv 0 ?st q (if n = 0 then retry else 0)"
    using assms(1,2) by (rule query_429_run)
  moreover have "srv (server ?st) (query_request ?st q) = (Inr r1, s1)"
    using assms(1,3) by simp
  then have "query srv 0 ?st q (if n = 0 then retry else 0) =
     (Raised RecursionError,
      ?st\<lparr>server := s1, log := log ?st @ [Http (query_request ?st q), Print msg_403]\<rparr>)"
    using query_403 [of srv "?st" q r1 s1 0 "if n = 0 then retry else 0"] assms(4) by simp
  ultimately show ?thesis
    using assms(1) by simp
qed

text \<open>
  Claim C1. When the server answers a query with status 200, 400 or 500 and a body
  that decodes to \<open>d\<close>, \<open>query\<close> returns the wrapper of exactly \<open>d\<close>, whatever the
  retry budget and the depth of the stack. The only effect is the one request:
  nothing is printed, there is no sleep and no login, and the headers are the ones
  the session had.
\<close>

theorem query_returns_decoded_body:
  "srv (server st) (query_request st q) = (Inr response, s')
     \<and> status_code response \<in> {200, 400, 500} \<and> json_body response = Some d \<longrightarrow>
   query srv depth st q retry =
     (Returned (Result d), st\<lparr>server := s', log := log st @ [Http (query_request st q)]\<rparr>)"
  by (auto intro: query_done)

theorem query_returns_decoded_body_witness:
  "query scripted 900 (session [resp 400 (Some [(''errors'', JStr ''bad query'')])]) ''search'' 0 =
     (Returned (Result [(''errors'', JStr ''bad query'')]),
      (session [])\<lparr>log := [Http (query_request (session []) ''search'')]\<rparr>)"
  using query_returns_decoded_body
    [where srv = scripted and st = "session [resp 400 (Some [(''errors'', JStr ''bad query'')])]"
       and q = "''search''" and response = "resp 400 (Some [(''errors'', JStr ''bad query'')])"
       and s' = "[]" and d = "[(''errors'', JStr ''bad query'')]" and depth = 900 and retry = 0]
  by (simp add: session_def resp_def query_request_def)

text \<open>
  Claim C2, as stated, fails: not every 403 is followed by a login and the query run
  again. Both are nested calls, and when the stack admits no further one the client
  raises RecursionError. Here the stack admits 1000 levels, the server throttles 1000
  times and then answers 403: the client prints the message and raises, with no
  login and no further query.
\<close>

theorem query_403_at_recursion_limit:
  "query scripted 1000
     (session (replicate 1000 (resp 429 None)
        @ [resp 403 None, resp 200 (Some [(''token'', JStr ''t1'')]),
           resp 200 (Some [(''publications'', JArr [])])])) ''search'' 0 =
   (Raised RecursionError,
    (session [resp 200 (Some [(''token'', JStr ''t1'')]),
              resp 200 (Some [(''publications'', JArr [])])])
      \<lparr>log := concat (replicate 1000
                 [Http (query_request (session []) ''search''), Print msg_429, Sleep 30])
              @ [Http (query_request (session []) ''search''), Print msg_403]\<rparr>)"
proof -
  let ?tail = "[resp 403 None, resp 200 (Some [(''token'', JStr ''t1'')]),
           resp 200 (Some [(''publications'', JArr [])])]"
  let ?st = "session (replicate 1000 (resp 429 None) @ ?tail)"
  have run: "answers 429 scripted (query_request ?st ''search'') (server ?st) 1000 = Some ?tail"
    unfolding session_def state.select_convs by (rule answers_scripted)
  have "query scripted 1000 ?st ''search'' 0 =
     (Raised RecursionError,
      ?st\<lparr>server := [resp 200 (Some [(''token'', JStr ''t1'')]),
                     resp 200 (Some [(''publications'', JArr [])])],
          log := log ?st @ concat (replicate 1000
                   [Http (query_request ?st ''search''), Print msg_429, Sleep 30])
                   @ [Http (query_request ?st ''search''), Print msg_403]\<rparr>)"
    using refl run
  proof (rule query_403_exhaust)
    show "scripted ?tail (query_request ?st ''search'') =
      (Inr (resp 403 None), [resp 200 (Some [(''token'', JStr ''t1'')]),
           resp 200 (Some [(''publications'', JArr [])])])"
      by simp
    show "status_code (resp 403 None) = 403"
      by (simp add: resp_def)
  qed
  also have "query_request ?st ''search'' = query_request (session []) ''search''"
    by (simp add: query_request_def session_def)
  finally show ?thesis
    by (simp add: session_def query_request_def)
qed

text \<open>
  Claim C2, amended. When the stack admits one more level of nested calls, a 403
  answer is followed by one login, that is one request to the authentication
  endpoint, and, when the login succeeds, by the same query run again, now under the
  new token; a login that fails raises its error. When the stack admits no further
  level, the 403 is followed by RecursionError. A 403, a successful login and a 200
  with body \<open>d\<close> on the query run again give the wrapper of \<open>d\<close> after exactly three
  requests, and this is the value a run whose first answer is that 200 returns.
\<close>

theorem query_403_relogin_once:
  "(srv (server st) (query_request st q) = (Inr r1, s1) \<and> status_code r1 = 403 \<longrightarrow>
      query srv (Suc depth) st q retry =
        (case login srv (st\<lparr>server := s1,
                              log := log st @ [Http (query_request st q), Print msg_403]\<rparr>) of
           (Inl e, st2) \<Rightarrow> (Raised e, st2)
         | (Inr u, st2) \<Rightarrow> query srv depth st2 q 0)
      \<and> log (snd (login srv (st\<lparr>server := s1,
                              log := log st @ [Http (query_request st q), Print msg_403]\<rparr>))) =
          log st @ [Http (query_request st q), Print msg_403, Http (login_request st)]
      \<and> query srv 0 st q retry =
          (Raised RecursionError,
           st\<lparr>server := s1, log := log st @ [Http (query_request st q), Print msg_403]\<rparr>)) \<and>
   (srv (server st) (query_request st q) = (Inr r1, s1) \<and> status_code r1 = 403
      \<and> srv s1 (login_request st) = (Inr r2, s2) \<and> raise_for_status r2 = None
      \<and> json_body r2 = Some d2 \<and> map_of d2 ''token'' = Some (JStr token)
      \<and> srv s2 (Post (url st @ ''/api/dsl.json'') (Data q) [(''Authorization'', ''JWT '' @ token)])
           = (Inr r3, s3)
      \<and> status_code r3 = 200 \<and> json_body r3 = Some d \<longrightarrow>
      query srv (Suc depth) st q retry =
        (Returned (Result d),
         st\<lparr>headers := [(''Authorization'', ''JWT '' @ token)], server := s3,
             log := log st @ [Http (query_request st q), Print msg_403, Http (login_request st),
                Http (Post (url st @ ''/api/dsl.json'') (Data q)
                        [(''Authorization'', ''JWT '' @ token)])]\<rparr>)
      \<and> (srv' (server st') (query_request st' q) = (Inr r3, s') \<longrightarrow>
            fst (query srv (Suc depth) st q retry) = fst (query srv' depth' st' q retry')))"
proof (intro conjI impI)
  assume h: "srv (server st) (query_request st q) = (Inr r1, s1) \<and> status_code r1 = 403"
  then show "query srv (Suc depth) st q retry =
        (case login srv (st\<lparr>server := s1,
                              log := log st @ [Http (query_request st q), Print msg_403]\<rparr>) of
           (Inl e, st2) \<Rightarrow> (Raised e, st2)
         | (Inr u, st2) \<Rightarrow> query srv depth st2 q 0)"
    using query_403 [of srv st q r1 s1 "Suc depth" retry] by simp
  show "log (snd (login srv (st\<lparr>server := s1,
                              log := log st @ [Http (query_request st q), Print msg_403]\<rparr>))) =
          log st @ [Http (query_request st q), Print msg_403, Http (login_request st)]"
    by (simp add: login_log)
  from h show "query srv 0 st q retry =
          (Raised RecursionError,
           st\<lparr>server := s1, log := log st @ [Http (query_request st q), Print msg_403]\<rparr>)"
    using query_403 [of srv st q r1 s1 0 retry] by simp
next
  assume h: "srv (server st) (query_request st q) = (Inr r1, s1) \<and> status_code r1 = 403
      \<and> srv s1 (login_request st) = (Inr r2, s2) \<and> raise_for_status r2 = None
      \<and> json_body r2 = Some d2 \<and> map_of d2 ''token'' = Some (JStr token)
      \<and> srv s2 (Post (url st @ ''/api/dsl.json'') (Data q) [(''Authorization'', ''JWT '' @ token)])
           = (Inr r3, s3)
      \<and> status_code r3 = 200 \<and> json_body r3 = Some d"
  let ?st2 = "st\<lparr>server := s2,
           log := log st @ [Http (query_request st q), Print msg_403, Http (login_request st)],
           headers := [(''Authorization'', ''JWT '' @ token)]\<rparr>"
  have relogin: "query srv (Suc depth) st q retry = query srv depth ?st2 q 0"
    using h query_403_relogin [of srv st q r1 s1 r2 s2 d2 token depth retry] by simp
  have post: "srv (server ?st2) (query_request ?st2 q) = (Inr r3, s3)"
    using h by (simp add: query_request_headers)
  have code: "status_code r3 \<in> {200, 400, 500}"
    using h by simp
  have body: "json_body r3 = Some d"
    using h by simp
  have "query srv depth ?st2 q 0 =
     (Returned (Result d), ?st2\<lparr>server := s3, log := log ?st2 @ [Http (query_request ?st2 q)]\<rparr>)"
    using post code body by (rule query_done [of srv "?st2" q r3 s3 d])
  with relogin have result: "query srv (Suc depth) st q retry =
        (Returned (Result d),
         st\<lparr>headers := [(''Authorization'', ''JWT '' @ token)], server := s3,
             log := log st @ [Http (query_request st q), Print msg_403, Http (login_request st),
                Http (Post (url st @ ''/api/dsl.json'') (Data q)
                        [(''Authorization'', ''JWT '' @ token)])]\<rparr>)"
    by (simp add: query_request_headers)
  show "query srv (Suc depth) st q retry =
        (Returned (Result d),
         st\<lparr>headers := [(''Authorization'', ''JWT '' @ token)], server := s3,
             log := log st @ [Http (query_request st q), Print msg_403, Http (login_request st),
                Http (Post (url st @ ''/api/dsl.json'') (Data q)
                        [(''Authorization'', ''JWT '' @ token)])]\<rparr>)"
    by (rule result)
  assume direct: "srv' (server st') (query_request st' q) = (Inr r3, s')"
  have "query srv' depth' st' q retry' =
     (Returned (Result d), st'\<lparr>server := s', log := log st' @ [Http (query_request st' q)]\<rparr>)"
    using direct code body by (rule query_done [of srv' st' q r3 s' d])
  with result show "fst (query srv (Suc depth) st q retry) = fst (query srv' depth' st' q retry')"
    by simp
qed

theorem query_403_relogin_once_witness:
  "query scripted 900
     (session [resp 403 None, resp 200 (Some [(''token'', JStr ''t1'')]),
               resp 200 (Some [(''publications'', JArr [])])]) ''search'' 0 =
   (Returned (Result [(''publications'', JArr [])]),
    (session [])\<lparr>headers := [(''Authorization'', ''JWT t1'')],
       log := [Http (query_request (session []) ''search''), Print msg_403,
               Http (login_request (session [])),
               Http (Post ''https://app.dimensions.ai/api/dsl.json'' (Data ''search'')
                       [(''Authorization'', ''JWT t1'')])]\<rparr>) \<and>
   fst (query scripted 900
          (session [resp 403 None, resp 200 (Some [(''token'', JStr ''t1'')]),
                    resp 200 (Some [(''publications'', JArr [])])]) ''search'' 0) =
   fst (query scripted 900 (session [resp 200 (Some [(''publications'', JArr [])])]) ''search'' 0)"
  using query_403_relogin_once
    [where srv = scripted
       and st = "session [resp 403 None, resp 200 (Some [(''token'', JStr ''t1'')]),
                          resp 200 (Some [(''publications'', JArr [])])]"
       and q = "''search''" and retry = 0 and depth = 899 and ?r1.0 = "resp 403 None"
       and ?s1.0 = "[resp 200 (Some [(''token'', JStr ''t1'')]),
                  resp 200 (Some [(''publications'', JArr [])])]"
       and ?r2.0 = "resp 200 (Some [(''token'', JStr ''t1'')])"
       and ?s2.0 = "[resp 200 (Some [(''publications'', JArr [])])]"
       and ?d2.0 = "[(''token'', JStr ''t1'')]" and token = "''t1''"
       and ?r3.0 = "resp 200 (Some [(''publications'', JArr [])])" and ?s3.0 = "[]"
       and d = "[(''publications'', JArr [])]"
       and srv' = scripted and st' = "session [resp 200 (Some [(''publications'', JArr [])])]"
       and s' = "[]" and retry' = 0 and depth' = 900]
  by (auto simp add: session_def resp_def query_request_def login_request_def raise_for_status_def)

text \<open>
  Claim C3 fails on a status that is not an error status. The last branch of \<open>query\<close>
  calls \<open>raise_for_status\<close>, which raises only for a 4xx or 5xx status. On a 204,
  with no budget, nothing is raised: the method falls off its end and returns
  Python's \<open>None\<close>, after the one request, although the class documents that queries
  always return a \<open>Result\<close>.
\<close>

theorem query_204_returns_none:
  "query scripted 900 (session [resp 204 None]) ''search'' 0 =
     (Returned_None, (session [])\<lparr>log := [Http (query_request (session []) ''search'')]\<rparr>)"
  by (subst query.simps)
     (simp add: session_def resp_def query_request_def post_def raise_for_status_def)

text \<open>
  On the error statuses the last branch does raise. For a 4xx or 5xx status \<open>c\<close> other
  than 400, 403, 429 and 500, given on every attempt, a budget of \<open>n\<close> and a stack
  that admits \<open>n\<close> nested calls: \<open>query\<close> makes \<open>n + 1\<close> requests, prints and sleeps
  30 seconds before each of the \<open>n\<close> retries, and raises the HTTP error of \<open>c\<close>.
  With \<open>n = 0\<close> this is one request and the error.
\<close>

lemma query_error_status_raises:
  "c \<notin> {429, 403, 200, 400, 500} \<and> 400 \<le> c \<and> c < 600
     \<and> answers c srv (query_request st q) (server st) n = Some s1
     \<and> srv s1 (query_request st q) = (Inr response, s') \<and> status_code response = c \<longrightarrow>
   query srv (n + depth) st q (int n) =
     (Raised (HTTPError c),
      st\<lparr>server := s',
          log := log st
            @ concat (replicate n [Http (query_request st q), Print msg_retry, Sleep 30])
            @ [Http (query_request st q)]\<rparr>)"
proof
  assume h: "c \<notin> {429, 403, 200, 400, 500} \<and> 400 \<le> c \<and> c < 600
     \<and> answers c srv (query_request st q) (server st) n = Some s1
     \<and> srv s1 (query_request st q) = (Inr response, s') \<and> status_code response = c"
  let ?st = "st\<lparr>server := s1,
      log := log st @ concat (replicate n [Http (query_request st q), Print msg_retry, Sleep 30])\<rparr>"
  have "query srv (n + depth) st q (int n + 0) = query srv depth ?st q 0"
    using h query_other_run [where st = st and q = q and c = c and srv = srv and n = n
        and s' = s1 and k = 0 and depth = depth, OF refl]
    by simp
  then have run: "query srv (n + depth) st q (int n) = query srv depth ?st q 0"
    by simp
  have post: "srv (server ?st) (query_request ?st q) = (Inr response, s')"
    using h by simp
  have other: "status_code response \<notin> {429, 403, 200, 400, 500}"
    using h by simp
  have "query srv depth ?st q 0 =
     (case raise_for_status response of Some e \<Rightarrow> Raised e | None \<Rightarrow> Returned_None,
      ?st\<lparr>server := s', log := log ?st @ [Http (query_request ?st q)]\<rparr>)"
    using post other by (rule query_other_final [of srv "?st" q response s' 0]) simp
  moreover have "raise_for_status response = Some (HTTPError c)"
    using h by (simp add: raise_for_status_def)
  ultimately show "query srv (n + depth) st q (int n) =
     (Raised (HTTPError c),
      st\<lparr>server := s',
          log := log st
            @ concat (replicate n [Http (query_request st q), Print msg_retry, Sleep 30])
            @ [Http (query_request st q)]\<rparr>)"
    using run by simp
qed

lemma query_503_budget_2:
  "query scripted 900 (session [resp 503 None, resp 503 None, resp 503 None]) ''search'' 2 =
     (Raised (HTTPError 503),
      (session [])\<lparr>log :=
         [Http (query_request (session []) ''search''), Print msg_retry, Sleep 30,
          Http (query_request (session []) ''search''), Print msg_retry, Sleep 30,
          Http (query_request (session []) ''search'')]\<rparr>)"
  using query_error_status_raises
    [where c = 503 and srv = scripted
       and st = "session [resp 503 None, resp 503 None, resp 503 None]"
       and q = "''search''" and n = 2 and depth = 898 and ?s1.0 = "[resp 503 None]"
       and response = "resp 503 None" and s' = "[]"]
  by (simp add: session_def resp_def query_request_def numeral_2_eq_2)

text \<open>
  Claim C4, as stated, fails: the number of retries is not unbounded. Each retry is
  a nested call, and the one that the stack no longer admits raises RecursionError.
  Here the stack admits 1000 nested calls and the server throttles 1001 times: after
  the last wait the client raises.
\<close>

theorem query_429_recursion_limit:
  "query scripted 1000 (session (replicate 1001 (resp 429 None))) ''search'' 0 =
   (Raised RecursionError,
    (session [])\<lparr>log := concat (replicate 1001
       [Http (query_request (session []) ''search''), Print msg_429, Sleep 30])\<rparr>)"
proof -
  let ?st = "session (replicate 1001 (resp 429 None))"
  have "answers 429 scripted (query_request ?st ''search'') (replicate 1001 (resp 429 None) @ []) 1001
    = Some []"
    by (rule answers_scripted)
  then have run: "answers 429 scripted (query_request ?st ''search'') (server ?st) (Suc 1000) = Some []"
    unfolding session_def state.select_convs by (simp only: append_Nil2 Suc_numeral) simp
  have "query scripted 1000 ?st ''search'' 0 =
     (Raised RecursionError,
      ?st\<lparr>server := [],
          log := log ?st @ concat (replicate (Suc 1000)
                   [Http (query_request ?st ''search''), Print msg_429, Sleep 30])\<rparr>)"
    using refl run by (rule query_429_exhaust)
  also have "query_request ?st ''search'' = query_request (session []) ''search''"
    by (simp add: query_request_def session_def)
  also have "Suc 1000 = 1001"
    by simp
  finally show ?thesis
    by (simp add: session_def query_request_def login_request_def)
qed

text \<open>
  Claim C4, amended. Each 429 answer is followed by the message, a sleep of 30
  seconds and the same request again, as long as the stack admits the nested call:
  after \<open>n\<close> such answers in a row, for any \<open>n\<close> that the stack admits, the client is
  still running the query, and a 200 that follows them is returned. There is no
  counter: the only bound is the stack, and the 429 answer that comes when it admits
  no further call is followed by the message, the sleep and RecursionError.
\<close>

theorem query_429_waits_and_retries:
  "(answers 429 srv (query_request st q) (server st) n = Some s' \<and> 0 < n \<longrightarrow>
      query srv (n + depth) st q retry =
        query srv depth
          (st\<lparr>server := s',
              log := log st @ concat (replicate n [Http (query_request st q), Print msg_429, Sleep 30])\<rparr>)
          q 0) \<and>
   (answers 429 srv (query_request st q) (server st) n = Some s'
      \<and> srv s' (query_request st q) = (Inr response, s'')
      \<and> status_code response = 200 \<and> json_body response = Some d \<longrightarrow>
      query srv (n + depth) st q retry =
        (Returned (Result d),
         st\<lparr>server := s'',
             log := log st @ concat (replicate n [Http (query_request st q), Print msg_429, Sleep 30])
                      @ [Http (query_request st q)]\<rparr>)) \<and>
   (answers 429 srv (query_request st q) (server st) (Suc depth) = Some s' \<longrightarrow>
      query srv depth st q retry =
        (Raised RecursionError,
         st\<lparr>server := s',
             log := log st
               @ concat (replicate (Suc depth) [Http (query_request st q), Print msg_429, Sleep 30])\<rparr>))"
proof (intro conjI impI)
  assume "answers 429 srv (query_request st q) (server st) n = Some s' \<and> 0 < n"
  then show "query srv (n + depth) st q retry =
        query srv depth
          (st\<lparr>server := s',
              log := log st @ concat (replicate n [Http (query_request st q), Print msg_429, Sleep 30])\<rparr>)
          q 0"
    using query_429_run [OF refl, of srv st q n s' depth retry] by simp
next
  assume h: "answers 429 srv (query_request st q) (server st) n = Some s'
      \<and> srv s' (query_request st q) = (Inr response, s'')
      \<and> status_code response = 200 \<and> json_body response = Some d"
  let ?st = "st\<lparr>server := s',
              log := log st @ concat (replicate n [Http (query_request st q), Print msg_429, Sleep 30])\<rparr>"
  have run: "query srv (n + depth) st q retry = query srv depth ?st q (if n = 0 then retry else 0)"
    using h query_429_run [OF refl, of srv st q n s' depth retry] by simp
  have post: "srv (server ?st) (query_request ?st q) = (Inr response, s'')"
    using h by simp
  have code: "status_code response \<in> {200, 400, 500}"
    using h by simp
  have body: "json_body response = Some d"
    using h by simp
  have "query srv depth ?st q (if n = 0 then retry else 0) =
    (Returned (Result d), ?st\<lparr>server := s'', log := log ?st @ [Http (query_request ?st q)]\<rparr>)"
    using post code body by (rule query_done [of srv "?st" q response s'' d])
  with run show "query srv (n + depth) st q retry =
        (Returned (Result d),
         st\<lparr>server := s'',
             log := log st @ concat (replicate n [Http (query_request st q), Print msg_429, Sleep 30])
                      @ [Http (query_request st q)]\<rparr>)"
    by simp
next
  assume "answers 429 srv (query_request st q) (server st) (Suc depth) = Some s'"
  with refl show "query srv depth st q retry =
        (Raised RecursionError,
         st\<lparr>server := s',
             log := log st
               @ concat (replicate (Suc depth) [Http (query_request st q), Print msg_429, Sleep 30])\<rparr>)"
    by (rule query_429_exhaust)
qed

theorem query_429_waits_and_retries_witness:
  "query scripted 900
     (session [resp 429 None, resp 429 None, resp 200 (Some [(''publications'', JArr [])])]) ''search'' 0 =
   (Returned (Result [(''publications'', JArr [])]),
    (session [])\<lparr>log :=
       [Http (query_request (session []) ''search''), Print msg_429, Sleep 30,
        Http (query_request (session []) ''search''), Print msg_429, Sleep 30,
        Http (query_request (session []) ''search'')]\<rparr>) \<and>
   query scripted 1 (session [resp 429 None, resp 429 None, resp 200 (Some [])]) ''search'' 0 =
   (Raised RecursionError,
    (session [resp 200 (Some [])])\<lparr>log :=
       [Http (query_request (session []) ''search''), Print msg_429, Sleep 30,
        Http (query_request (session []) ''search''), Print msg_429, Sleep 30]\<rparr>)"
  using query_429_waits_and_retries
    [where srv = scripted
       and st = "session [resp 429 None, resp 429 None, resp 200 (Some [(''publications'', JArr [])])]"
       and q = "''search''" and n = 2 and depth = 898
       and s' = "[resp 200 (Some [(''publications'', JArr [])])]" and retry = 0
       and response = "resp 200 (Some [(''publications'', JArr [])])" and s'' = "[]"
       and d = "[(''publications'', JArr [])]", THEN conjunct2, THEN conjunct1]
    query_429_waits_and_retries
    [where srv = scripted
       and st = "session [resp 429 None, resp 429 None, resp 200 (Some [])]"
       and q = "''search''" and depth = 1 and s' = "[resp 200 (Some [])]" and retry = 0,
     THEN conjunct2, THEN conjunct2]
  by (simp add: session_def resp_def query_request_def numeral_2_eq_2)

text \<open>
  Claim C10 fails on a status that is not an error status. The nested calls after a
  429 and after a 403 do run with budget 0, whatever budget the caller gave, so an
  unexpected status on the next attempt ends the call at once, with no retry. But it
  ends it with an exception only for a 4xx or 5xx status: on a 204 the call returns
  Python's \<open>None\<close>, as it does without the 429 or the 403 before.
\<close>

theorem query_nested_204_returns_none:
  "query scripted 900 (session [resp 429 None, resp 204 None]) ''search'' 2 =
     (Returned_None,
      (session [])\<lparr>log :=
         [Http (query_request (session []) ''search''), Print msg_429, Sleep 30,
          Http (query_request (session []) ''search'')]\<rparr>) \<and>
   query scripted 900
     (session [resp 403 None, resp 200 (Some [(''token'', JStr ''t1'')]), resp 204 None])
     ''search'' 2 =
     (Returned_None,
      (session [])\<lparr>headers := [(''Authorization'', ''JWT t1'')],
         log := [Http (query_request (session []) ''search''), Print msg_403,
                 Http (login_request (session [])),
                 Http (Post ''https://app.dimensions.ai/api/dsl.json'' (Data ''search'')
                         [(''Authorization'', ''JWT t1'')])]\<rparr>)"
  by (simp add: query.simps session_def resp_def query_request_def post_def emit_def
        raise_for_status_def login_def login_request_def dict_get_def)

text \<open>
  On the error statuses the nested call does raise at once. After a 429, and after a
  403 with a successful login, an error status \<open>c\<close> outside 400, 403, 429 and 500 on
  the next attempt raises the HTTP error of \<open>c\<close> with no retry and no sleep,
  whatever budget the caller gave.
\<close>

lemma query_nested_call_has_no_budget:
  "(srv (server st) (query_request st q) = (Inr r1, s1) \<and> status_code r1 = 429
      \<and> srv s1 (query_request st q) = (Inr r2, s2) \<and> status_code r2 = c
      \<and> c \<notin> {429, 403, 200, 400, 500} \<and> 400 \<le> c \<and> c < 600 \<longrightarrow>
      query srv (Suc depth) st q retry =
        (Raised (HTTPError c),
         st\<lparr>server := s2,
             log := log st @ [Http (query_request st q), Print msg_429, Sleep 30,
                              Http (query_request st q)]\<rparr>)) \<and>
   (srv (server st) (query_request st q) = (Inr r1, s1) \<and> status_code r1 = 403
      \<and> srv s1 (login_request st) = (Inr r2, s2) \<and> raise_for_status r2 = None
      \<and> json_body r2 = Some d2 \<and> map_of d2 ''token'' = Some (JStr token)
      \<and> srv s2 (Post (url st @ ''/api/dsl.json'') (Data q) [(''Authorization'', ''JWT '' @ token)])
           = (Inr r3, s3)
      \<and> status_code r3 = c \<and> c \<notin> {429, 403, 200, 400, 500} \<and> 400 \<le> c \<and> c < 600 \<longrightarrow>
      query srv (Suc depth) st q retry =
        (Raised (HTTPError c),
         st\<lparr>headers := [(''Authorization'', ''JWT '' @ token)], server := s3,
             log := log st @ [Http (query_request st q), Print msg_403, Http (login_request st),
                Http (Post (url st @ ''/api/dsl.json'') (Data q)
                        [(''Authorization'', ''JWT '' @ token)])]\<rparr>))"
proof (intro conjI impI)
  assume h: "srv (server st) (query_request st q) = (Inr r1, s1) \<and> status_code r1 = 429
      \<and> srv s1 (query_request st q) = (Inr r2, s2) \<and> status_code r2 = c
      \<and> c \<notin> {429, 403, 200, 400, 500} \<and> 400 \<le> c \<and> c < 600"
  let ?st1 = "st\<lparr>server := s1,
      log := log st @ [Http (query_request st q), Print msg_429, Sleep 30]\<rparr>"
  have again: "query srv (Suc depth) st q retry = query srv depth ?st1 q 0"
    using h query_429 [of srv st q r1 s1 "Suc depth" retry] by simp
  have post: "srv (server ?st1) (query_request ?st1 q) = (Inr r2, s2)"
    using h by simp
  have other: "status_code r2 \<notin> {429, 403, 200, 400, 500}"
    using h by simp
  have "query srv depth ?st1 q 0 =
     (case raise_for_status r2 of Some e \<Rightarrow> Raised e | None \<Rightarrow> Returned_None,
      ?st1\<lparr>server := s2, log := log ?st1 @ [Http (query_request ?st1 q)]\<rparr>)"
    using post other by (rule query_other_final [of srv "?st1" q r2 s2 0]) simp
  moreover have "raise_for_status r2 = Some (HTTPError c)"
    using h by (simp add: raise_for_status_def)
  ultimately show "query srv (Suc depth) st q retry =
        (Raised (HTTPError c),
         st\<lparr>server := s2,
             log := log st @ [Http (query_request st q), Print msg_429, Sleep 30,
                              Http (query_request st q)]\<rparr>)"
    using again by simp
next
  assume h: "srv (server st) (query_request st q) = (Inr r1, s1) \<and> status_code r1 = 403
      \<and> srv s1 (login_request st) = (Inr r2, s2) \<and> raise_for_status r2 = None
      \<and> json_body r2 = Some d2 \<and> map_of d2 ''token'' = Some (JStr token)
      \<and> srv s2 (Post (url st @ ''/api/dsl.json'') (Data q) [(''Authorization'', ''JWT '' @ token)])
           = (Inr r3, s3)
      \<and> status_code r3 = c \<and> c \<notin> {429, 403, 200, 400, 500} \<and> 400 \<le> c \<and> c < 600"
  let ?st2 = "st\<lparr>server := s2,
           log := log st @ [Http (query_request st q), Print msg_403, Http (login_request st)],
           headers := [(''Authorization'', ''JWT '' @ token)]\<rparr>"
  have again: "query srv (Suc depth) st q retry = query srv depth ?st2 q 0"
    using h query_403_relogin [of srv st q r1 s1 r2 s2 d2 token depth retry] by simp
  have post: "srv (server ?st2) (query_request ?st2 q) = (Inr r3, s3)"
    using h by (simp add: query_request_headers)
  have other: "status_code r3 \<notin> {429, 403, 200, 400, 500}"
    using h by simp
  have "query srv depth ?st2 q 0 =
     (case raise_for_status r3 of Some e \<Rightarrow> Raised e | None \<Rightarrow> Returned_None,
      ?st2\<lparr>server := s3, log := log ?st2 @ [Http (query_request ?st2 q)]\<rparr>)"
    using post other by (rule query_other_final [of srv "?st2" q r3 s3 0]) simp
  moreover have "raise_for_status r3 = Some (HTTPError c)"
    using h by (simp add: raise_for_status_def)
  ultimately show "query srv (Suc depth) st q retry =
        (Raised (HTTPError c),
         st\<lparr>headers := [(''Authorization'', ''JWT '' @ token)], server := s3,
             log := log st @ [Http (query_request st q), Print msg_403, Http (login_request st),
                Http (Post (url st @ ''/api/dsl.json'') (Data q)
                        [(''Authorization'', ''JWT '' @ token)])]\<rparr>)"
    using again by (simp add: query_request_headers)
qed

lemma query_429_then_503_budget_2:
  "query scripted 900 (session [resp 429 None, resp 503 None, resp 200 (Some [])]) ''search'' 2 =
     (Raised (HTTPError 503),
      (session [resp 200 (Some [])])\<lparr>log :=
         [Http (query_request (session []) ''search''), Print msg_429, Sleep 30,
          Http (query_request (session []) ''search'')]\<rparr>)"
  using query_nested_call_has_no_budget
    [where srv = scripted
       and st = "session [resp 429 None, resp 503 None, resp 200 (Some [])]"
       and q = "''search''" and retry = 2 and depth = 899 and c = 503 and ?r1.0 = "resp 429 None"
       and ?s1.0 = "[resp 503 None, resp 200 (Some [])]" and ?r2.0 = "resp 503 None"
       and ?s2.0 = "[resp 200 (Some [])]", THEN conjunct1]
  by (simp add: session_def resp_def query_request_def)

section \<open>Properties of the loop executor\<close>

text \<open>
  Claim C5. With a page size of 500 and pages of 500, 500 and 237 records at the
  offsets 0, 500 and 1000, the loop requests exactly these three offsets, in this
  order, stops at the third page, which is short, and returns 1237 records, the
  three pages in order. When the first page is shorter than the page size, the loop
  makes one request, at offset 0, and returns that page.
\<close>

theorem query_iterative_pages:
  "(length p1 = 500 \<and> length p2 = 500 \<and> length p3 = 237
      \<and> fetch 0 = Inr p1 \<and> fetch 500 = Inr p2 \<and> fetch 1000 = Inr p3 \<longrightarrow>
      query_iterative fetch 500 None = Some (Inr (p1 @ p2 @ p3), [0, 500, 1000])
      \<and> length (p1 @ p2 @ p3) = 1237) \<and>
   (length p < limit \<and> fetch 0 = Inr p \<longrightarrow>
      query_iterative fetch limit declared = Some (Inr p, [0]))"
proof (intro conjI impI)
  assume h: "length p1 = 500 \<and> length p2 = 500 \<and> length p3 = 237
      \<and> fetch 0 = Inr p1 \<and> fetch 500 = Inr p2 \<and> fetch 1000 = Inr p3"
  have third: "loop_pages fetch 500 None 1000 (p1 @ p2) [0, 500] =
      Some (Inr (p1 @ p2 @ p3), [0, 500, 1000])"
    using h by (subst loop_pages.simps) simp
  have second: "loop_pages fetch 500 None 500 p1 [0] = loop_pages fetch 500 None 1000 (p1 @ p2) [0, 500]"
    using h by (subst loop_pages.simps) simp
  have first: "loop_pages fetch 500 None 0 [] [] = loop_pages fetch 500 None 500 p1 [0]"
    using h by (subst loop_pages.simps) simp
  show "query_iterative fetch 500 None = Some (Inr (p1 @ p2 @ p3), [0, 500, 1000])"
    using first second third by (simp add: query_iterative_def)
  show "length (p1 @ p2 @ p3) = 1237"
    using h by simp
next
  assume "length p < limit \<and> fetch 0 = Inr p"
  then show "query_iterative fetch limit declared = Some (Inr p, [0])"
    unfolding query_iterative_def by (subst loop_pages.simps) simp
qed

theorem query_iterative_pages_witness:
  "query_iterative
     (\<lambda>offset. if offset = 0 then Inr (replicate 500 (0::nat))
        else if offset = 500 then Inr (replicate 500 1)
        else if offset = 1000 then Inr (replicate 237 2) else Inl ConnectionError) 500 None =
     Some (Inr (replicate 500 0 @ replicate 500 1 @ replicate 237 2), [0, 500, 1000]) \<and>
   length (replicate 500 (0::nat) @ replicate 500 1 @ replicate 237 2) = 1237 \<and>
   query_iterative (\<lambda>offset. if offset = 0 then Inr [7, 8, 9 :: nat] else Inl ConnectionError)
     500 (Some 1000) = Some (Inr [7, 8, 9], [0])"
  using query_iterative_pages
    [where ?p1.0 = "replicate 500 (0::nat)" and ?p2.0 = "replicate 500 1"
       and ?p3.0 = "replicate 237 2"
       and fetch = "\<lambda>offset. if offset = 0 then Inr (replicate 500 (0::nat))
          else if offset = 500 then Inr (replicate 500 1)
          else if offset = 1000 then Inr (replicate 237 2) else Inl ConnectionError"]
    query_iterative_pages
    [where p = "[7, 8, 9 :: nat]" and limit = 500 and declared = "Some 1000"
       and fetch = "\<lambda>offset. if offset = 0 then Inr [7, 8, 9 :: nat] else Inl ConnectionError"]
  by simp

end
